theory Spec2Isabelle
  imports Complex_Main "HOL-Library.AList"
begin

chapter \<open>The embedding\<close>

section \<open>Values and errors\<close>

text \<open>
  The PDF values of \<open>ptext.io.read.types\<close> as far as the modelled code inspects them.
  \<open>Name\<close> and \<open>String\<close> carry their text, \<open>Decimal\<close> is an exact rational (the finite
  precision of Python's \<open>decimal\<close> context is not modelled), a \<open>Dictionary\<close> keeps its
  entries in insertion order with its keys as plain text, and carries the class it was
  built as: \<open>Page\<close> and \<open>Stream\<close> are subclasses of \<open>Dictionary\<close>, so
  \<open>isinstance(obj, Dictionary)\<close> holds for all three. A value is a finite tree: object
  graphs with sharing are read as their unfolding, cyclic ones are outside the model.
  Comparing a value with a Python string literal (\<open>obj["Type"] == "Pages"\<close>) holds for
  the \<open>Name\<close> of that text.
\<close>

datatype error = AssertionError | KeyError | TypeError | ValueError | IndexError
  | AttributeError | UnicodeError | ReferenceConflict | GraphicsStateUnderflow

datatype dictionary_class = PlainDictionary | Page | Stream

datatype pdf =
    Name string
  | String string
  | Decimal rat
  | Boolean bool
  | Bytes "nat list"
  | pList "pdf list"
  | Dictionary dictionary_class "(string \<times> pdf) list"

fun is_Name :: "pdf \<Rightarrow> bool" where
  "is_Name (Name s) = True"
| "is_Name _ = False"

fun is_Decimal :: "pdf \<Rightarrow> bool" where
  "is_Decimal (Decimal d) = True"
| "is_Decimal _ = False"

fun is_Dictionary :: "pdf \<Rightarrow> bool" where
  "is_Dictionary (Dictionary c entries) = True"
| "is_Dictionary _ = False"

fun is_Page :: "pdf \<Rightarrow> bool" where
  "is_Page (Dictionary c entries) = (c = Page)"
| "is_Page _ = False"

text \<open>\<open>obj[key]\<close> on a value: \<open>KeyError\<close> on a missing key, \<open>TypeError\<close> on a value
  that takes no text key.\<close>

fun getitem :: "pdf \<Rightarrow> string \<Rightarrow> error + pdf" where
  "getitem (Dictionary c es) k = (case map_of es k of None \<Rightarrow> Inl KeyError | Some v \<Rightarrow> Inr v)"
| "getitem _ k = Inl TypeError"

text \<open>\<open>v in [s1, s2, ...]\<close> for a list of string literals.\<close>

definition in_names :: "pdf \<Rightarrow> string list \<Rightarrow> bool" where
  "in_names v names = (\<exists>s \<in> set names. v = Name s)"

text \<open>\<open>int(d)\<close> of a \<open>Decimal\<close> truncates towards zero.\<close>

definition trunc :: "rat \<Rightarrow> int" where
  "trunc q = (if 0 \<le> q then \<lfloor>q\<rfloor> else \<lceil>q\<rceil>)"

text \<open>A Python \<open>dict\<close> is an association list with distinct keys, in insertion order;
  \<open>{v: k for k, v in d.items()}\<close> lets a later item overwrite the value of an earlier one
  with the same key.\<close>

definition reverse_lookup :: "('a \<times> 'b) list \<Rightarrow> ('b \<times> 'a) list" where
  "reverse_lookup items = fold (\<lambda>(k, v) d. AList.update v k d) items []"

section \<open>Standard 14 font names (font\_type\_1.py, StandardType1Font)\<close>

text \<open>
  Python strings are modelled as \<^typ>\<open>string\<close>: every character is a code point below 256.
  On these code points \<open>str.lower()\<close> maps \<open>A..Z\<close> and the Latin-1 capitals
  (\<open>0xC0..0xD6\<close>, \<open>0xD8..0xDE\<close>) to the code point 32 above and leaves the rest alone.
\<close>

definition STANDARD_14_FONT_NAMES :: "string list" where
  "STANDARD_14_FONT_NAMES =
    [''Courier'', ''Courier-Bold'', ''Courier-Bold-Oblique'', ''Courier-Oblique'',
     ''Helvetica'', ''Helvetica-Bold'', ''Helvetica-Bold-Oblique'', ''Helvetica-Oblique'',
     ''Symbol'', ''Times-Bold'', ''Times-Bold-Italic'', ''Times-Italic'', ''Times-Roman'',
     ''ZapfDingbats'']"

definition uppercase :: string where
  "uppercase = ''ABCDEFGHIJKLMNOPQRSTUVWXYZ'' @
     [CHR 0xC0, CHR 0xC1, CHR 0xC2, CHR 0xC3, CHR 0xC4, CHR 0xC5, CHR 0xC6, CHR 0xC7,
      CHR 0xC8, CHR 0xC9, CHR 0xCA, CHR 0xCB, CHR 0xCC, CHR 0xCD, CHR 0xCE, CHR 0xCF,
      CHR 0xD0, CHR 0xD1, CHR 0xD2, CHR 0xD3, CHR 0xD4, CHR 0xD5, CHR 0xD6,
      CHR 0xD8, CHR 0xD9, CHR 0xDA, CHR 0xDB, CHR 0xDC, CHR 0xDD, CHR 0xDE]"

definition lowercase :: string where
  "lowercase = ''abcdefghijklmnopqrstuvwxyz'' @
     [CHR 0xE0, CHR 0xE1, CHR 0xE2, CHR 0xE3, CHR 0xE4, CHR 0xE5, CHR 0xE6, CHR 0xE7,
      CHR 0xE8, CHR 0xE9, CHR 0xEA, CHR 0xEB, CHR 0xEC, CHR 0xED, CHR 0xEE, CHR 0xEF,
      CHR 0xF0, CHR 0xF1, CHR 0xF2, CHR 0xF3, CHR 0xF4, CHR 0xF5, CHR 0xF6,
      CHR 0xF8, CHR 0xF9, CHR 0xFA, CHR 0xFB, CHR 0xFC, CHR 0xFD, CHR 0xFE]"

text \<open>\<open>x.lower()\<close>, character by character.\<close>

definition lower_char :: "char \<Rightarrow> char" where
  "lower_char c = (case map_of (zip uppercase lowercase) c of Some l \<Rightarrow> l | None \<Rightarrow> c)"

definition lower :: "string \<Rightarrow> string" where
  "lower x = map lower_char x"

text \<open>
  \<^verbatim>\<open>"".join([c for c in x.lower() if c in "abcdefghijklmnopqrstuvwxyz"])\<close>
\<close>

definition to_lower_and_alpha :: "string \<Rightarrow> string" where
  "to_lower_and_alpha x = filter (\<lambda>c. c \<in> set ''abcdefghijklmnopqrstuvwxyz'') (lower x)"

text \<open>
  The loop \<^verbatim>\<open>for n in STANDARD_14_FONT_NAMES: if _to_lower_and_alpha(n) == canonical_name: return n\<close>,
  falling through to \<^verbatim>\<open>return None\<close>.
\<close>

fun first_match :: "string \<Rightarrow> string list \<Rightarrow> string option" where
  "first_match canonical [] = None"
| "first_match canonical (n # ns) =
    (if to_lower_and_alpha n = canonical then Some n else first_match canonical ns)"

definition canonical_name :: "string \<Rightarrow> string option" where
  "canonical_name font_name =
    first_match (to_lower_and_alpha font_name) STANDARD_14_FONT_NAMES"

definition is_standard_14_font_name :: "string \<Rightarrow> bool" where
  "is_standard_14_font_name font_name = (canonical_name font_name \<noteq> None)"


section \<open>Type 1 fonts (font\_type\_1.py, Type1Font)\<close>

text \<open>
  What the font code calls outside the sources at hand, taken as parameters: the codecs of
  Python's standard library (\<open>bytes.decode\<close> and \<open>str.encode\<close> for \<open>cp1252\<close> and
  \<open>mac-roman\<close>), the Adobe standard codec of \<open>ptext.pdf.canvas.font.adobe_standard_encoding\<close>,
  \<open>toUnicode(str(v))\<close> of fontTools' Adobe Glyph List, and the CMap parser \<open>_read_cmap\<close>
  of the font base class. A codec fails with an error or returns its result; the result of
  the Adobe standard encoder is taken to be bytes, like that of \<open>str.encode\<close>.
\<close>

record externals =
  decode_cp1252 :: "nat list \<Rightarrow> error + string"
  decode_mac_roman :: "nat list \<Rightarrow> error + string"
  adobe_standard_decode :: "nat list \<Rightarrow> error + string"
  encode_cp1252 :: "string \<Rightarrow> error + nat list"
  encode_mac_roman :: "string \<Rightarrow> error + nat list"
  adobe_standard_encode :: "string \<Rightarrow> error + nat list"
  glyph_to_unicode :: "pdf \<Rightarrow> string"
  read_cmap :: "pdf \<Rightarrow> error + (int \<times> string) list"

text \<open>A font is its dictionary together with the two memoised lookup tables.\<close>

record type1_font =
  dict :: "(string \<times> pdf) list"
  character_identifier_to_unicode_lookup :: "(int \<times> string) list"
  unicode_lookup_to_character_identifier :: "(string \<times> int) list"

text \<open>\<open>Type1Font.__init__\<close>\<close>

definition Type1Font :: type1_font where
  "Type1Font =
    \<lparr>dict = [(''Type'', Name ''Font''), (''Subtype'', Name ''Type1'')],
     character_identifier_to_unicode_lookup = [],
     unicode_lookup_to_character_identifier = []\<rparr>"

text \<open>\<open>self[Name(k)] = v\<close>\<close>

definition setitem :: "string \<Rightarrow> pdf \<Rightarrow> type1_font \<Rightarrow> type1_font" where
  "setitem k v f = f\<lparr>dict := AList.update k v (dict f)\<rparr>"

text \<open>\<open>bytes(xs)\<close> raises \<open>ValueError\<close> unless every element is in \<open>range(0, 256)\<close>.\<close>

definition bytes_of :: "int list \<Rightarrow> error + nat list" where
  "bytes_of xs =
    (if \<forall>x \<in> set xs. 0 \<le> x \<and> x < 256 then Inr (map nat xs) else Inl ValueError)"

text \<open>
  \<open>int(b)\<close> of a \<open>bytes\<close> object reads a decimal literal: ASCII white space around it is
  dropped, a sign may lead, and single underscores may stand between digits. Anything else
  is a \<open>ValueError\<close>.
\<close>

definition is_space :: "nat \<Rightarrow> bool" where
  "is_space b = (b \<in> {9, 10, 11, 12, 13, 32})"

definition is_digit :: "nat \<Rightarrow> bool" where
  "is_digit b = (48 \<le> b \<and> b \<le> 57)"

fun digits_value :: "int \<Rightarrow> bool \<Rightarrow> nat list \<Rightarrow> int option" where
  "digits_value acc after_digit [] = (if after_digit then Some acc else None)"
| "digits_value acc after_digit (b # bs) =
    (if is_digit b then digits_value (acc * 10 + int (b - 48)) True bs
     else if b = 95 \<and> after_digit then digits_value acc False bs
     else None)"

definition int_of_bytes :: "nat list \<Rightarrow> error + int" where
  "int_of_bytes bs =
    (let s = dropWhile is_space (rev (dropWhile is_space (rev bs)));
         (sign, ds) = (case s of
             b # r \<Rightarrow> if b = 45 then (- 1, r) else if b = 43 then (1, r) else (1, s)
           | [] \<Rightarrow> (1, s))
     in case digits_value 0 False ds of
          None \<Rightarrow> Inl ValueError
        | Some n \<Rightarrow> Inr (sign * n))"

definition named_encodings :: "string list" where
  "named_encodings =
    [''MacRomanEncoding'', ''MacExpertEncoding'', ''WinAnsiEncoding'', ''StandardEncoding'']"

text \<open>
  The two nested loops of \<open>_read_encoding_with_differences\<close> in one pass: the outer loop
  stands on a number, which becomes the character code; the inner loop gives every
  following entry that is no number the current code and counts on. Only the first entry
  can fail the outer loop's assertion, since the inner loop stops in front of a number.
  The table built so far is returned beside the error.
\<close>

fun apply_differences ::
  "(pdf \<Rightarrow> string) \<Rightarrow> rat option \<Rightarrow> pdf list \<Rightarrow> (int \<times> string) list
    \<Rightarrow> error option \<times> (int \<times> string) list" where
  "apply_differences g character_code [] table = (None, table)"
| "apply_differences g character_code (Decimal c # ds) table =
     apply_differences g (Some c) ds table"
| "apply_differences g None (d # ds) table = (Some AssertionError, table)"
| "apply_differences g (Some c) (d # ds) table =
     apply_differences g (Some (c + 1)) ds (AList.update (trunc c) (g d) table)"

text \<open>
  \<open>len(differences)\<close> and \<open>differences[i]\<close> on a value that is no list: an empty string,
  byte string or dictionary has nothing to scan, a non-empty one fails at its first element,
  and a number has no length.
\<close>

fun differences_of :: "pdf \<Rightarrow> error + pdf list" where
  "differences_of (pList ds) = Inr ds"
| "differences_of (Name s) = (if s = [] then Inr [] else Inl AssertionError)"
| "differences_of (String s) = (if s = [] then Inr [] else Inl AssertionError)"
| "differences_of (Bytes bs) = (if bs = [] then Inr [] else Inl AssertionError)"
| "differences_of (Dictionary c es) = (if es = [] then Inr [] else Inl KeyError)"
| "differences_of (Decimal d) = Inl TypeError"
| "differences_of (Boolean b) = Inl TypeError"

text \<open>The functions that update the font return it beside their result or error: an
  exception leaves the font as it was changed up to then.\<close>

definition read_encoding_with_differences ::
  "externals \<Rightarrow> type1_font \<Rightarrow> error option \<times> type1_font" where
  "read_encoding_with_differences ext self =
    (if unicode_lookup_to_character_identifier self \<noteq> [] then (None, self)
     else
      (case map_of (dict self) ''FirstChar'' of
         None \<Rightarrow> (Some AssertionError, self)
       | Some first_char \<Rightarrow>
          (if \<not> is_Decimal first_char then (Some AssertionError, self)
           else
            (case map_of (dict self) ''LastChar'' of
               None \<Rightarrow> (Some AssertionError, self)
             | Some last_char \<Rightarrow>
                (if \<not> is_Decimal last_char then (Some AssertionError, self)
                 else
                  (let cleared = self\<lparr>character_identifier_to_unicode_lookup := []\<rparr> in
                   case map_of (dict self) ''Encoding'' of
                     None \<Rightarrow> (Some KeyError, cleared)
                   | Some encoding \<Rightarrow>
                      (case getitem encoding ''Differences'' of
                         Inl e \<Rightarrow> (Some e, cleared)
                       | Inr differences \<Rightarrow>
                          (case differences_of differences of
                             Inl e \<Rightarrow> (Some e, cleared)
                           | Inr ds \<Rightarrow>
                              (let r = apply_differences (glyph_to_unicode ext) None ds [];
                                   filled =
                                     self\<lparr>character_identifier_to_unicode_lookup := snd r\<rparr>
                               in case fst r of
                                    Some e \<Rightarrow> (Some e, filled)
                                  | None \<Rightarrow>
                                     (None,
                                      filled\<lparr>unicode_lookup_to_character_identifier :=
                                        reverse_lookup (snd r)\<rparr>))))))))))"

text \<open>\<open>_read_to_unicode\<close>. A \<open>ToUnicode\<close> entry that is no dictionary fails the assertion
  or the subscript after it; the model does not tell the two apart.\<close>

definition read_to_unicode :: "externals \<Rightarrow> type1_font \<Rightarrow> error option \<times> type1_font" where
  "read_to_unicode ext self =
    (if unicode_lookup_to_character_identifier self \<noteq> [] then (None, self)
     else case map_of (dict self) ''ToUnicode'' of
       None \<Rightarrow> (Some AssertionError, self)
     | Some (Dictionary c stream) \<Rightarrow>
        (case map_of stream ''DecodedBytes'' of
           None \<Rightarrow> (Some AssertionError, self)
         | Some cmap_bytes \<Rightarrow>
            (case read_cmap ext cmap_bytes of
               Inl e \<Rightarrow> (Some e, self)
             | Inr cmap \<Rightarrow>
                (let filled = self\<lparr>character_identifier_to_unicode_lookup := cmap,
                       unicode_lookup_to_character_identifier := reverse_lookup cmap\<rparr>
                 in (None, filled))))
     | Some _ \<Rightarrow> (Some AssertionError, self))"

text \<open>\<open>bytes([character_identifier]).decode(codec)\<close>\<close>

definition decode_with ::
  "(nat list \<Rightarrow> error + string) \<Rightarrow> int \<Rightarrow> error + string option" where
  "decode_with codec character_identifier =
    (case bytes_of [character_identifier] of
       Inl e \<Rightarrow> Inl e
     | Inr bs \<Rightarrow> (case codec bs of Inl e \<Rightarrow> Inl e | Inr u \<Rightarrow> Inr (Some u)))"

text \<open>\<^verbatim>\<open>if "Encoding" not in self: self[Name("Encoding")] = Name("StandardEncoding")\<close>\<close>

definition implied_encoding :: "type1_font \<Rightarrow> type1_font" where
  "implied_encoding self =
    (if map_of (dict self) ''Encoding'' = None
     then setitem ''Encoding'' (Name ''StandardEncoding'') self else self)"

text \<open>The test for an encoding dictionary with one of the four base encodings.\<close>

definition has_base_encoding :: "pdf \<Rightarrow> bool" where
  "has_base_encoding encoding =
    (case encoding of
       Dictionary c es \<Rightarrow>
         (case map_of es ''BaseEncoding'' of
            None \<Rightarrow> False
          | Some b \<Rightarrow> in_names b named_encodings)
     | _ \<Rightarrow> False)"

text \<open>
  \<open>Type1Font.character_identifier_to_unicode\<close>. The \<open>MacExpertEncoding\<close> branch formats
  \<open>self["BaseFont"]\<close> into its log message before it decodes, so a font without that
  entry raises \<open>KeyError\<close> there.
\<close>

definition character_identifier_to_unicode ::
  "externals \<Rightarrow> type1_font \<Rightarrow> int \<Rightarrow> (error + string option) \<times> type1_font" where
  "character_identifier_to_unicode ext self character_identifier =
    (if map_of (dict self) ''ToUnicode'' \<noteq> None then
       (let r = read_to_unicode ext self in
        case fst r of
          Some e \<Rightarrow> (Inl e, snd r)
        | None \<Rightarrow>
           (Inr (map_of (character_identifier_to_unicode_lookup (snd r)) character_identifier),
            snd r))
     else
       (let f = implied_encoding self in
        case map_of (dict f) ''Encoding'' of
          None \<Rightarrow> (Inl KeyError, f)
        | Some encoding \<Rightarrow>
           if is_Name encoding \<and> in_names encoding named_encodings then
             (if character_identifier < 0 \<or> character_identifier > 256 then (Inr None, f)
              else if encoding = Name ''WinAnsiEncoding'' then
                (decode_with (decode_cp1252 ext) character_identifier, f)
              else if encoding = Name ''MacRomanEncoding'' then
                (decode_with (decode_mac_roman ext) character_identifier, f)
              else if encoding = Name ''MacExpertEncoding'' then
                (if map_of (dict f) ''BaseFont'' = None then (Inl KeyError, f)
                 else (decode_with (decode_mac_roman ext) character_identifier, f))
              else if encoding = Name ''StandardEncoding'' then
                (decode_with (adobe_standard_decode ext) character_identifier, f)
              else (Inr None, f))
           else if has_base_encoding encoding then
             (if character_identifier < 0 \<or> character_identifier > 256 then (Inr None, f)
              else
               (let r = read_encoding_with_differences ext f in
                case fst r of
                  Some e \<Rightarrow> (Inl e, snd r)
                | None \<Rightarrow>
                   (Inr (map_of (character_identifier_to_unicode_lookup (snd r))
                          character_identifier),
                    snd r)))
           else (Inr None, f)))"

text \<open>\<open>int(unicode.encode(codec))\<close> inside \<^verbatim>\<open>try: ... except: return None\<close>\<close>

definition encode_with :: "(string \<Rightarrow> error + nat list) \<Rightarrow> string \<Rightarrow> int option" where
  "encode_with codec unicode =
    (case codec unicode of
       Inl e \<Rightarrow> None
     | Inr bs \<Rightarrow> (case int_of_bytes bs of Inl e \<Rightarrow> None | Inr n \<Rightarrow> Some n))"

text \<open>\<open>Type1Font.unicode_to_character_identifier\<close>\<close>

definition unicode_to_character_identifier ::
  "externals \<Rightarrow> type1_font \<Rightarrow> string \<Rightarrow> (error + int option) \<times> type1_font" where
  "unicode_to_character_identifier ext self unicode =
    (if map_of (dict self) ''ToUnicode'' \<noteq> None then
       (let r = read_to_unicode ext self in
        case fst r of
          Some e \<Rightarrow> (Inl e, snd r)
        | None \<Rightarrow> (Inr (map_of (unicode_lookup_to_character_identifier (snd r)) unicode), snd r))
     else
       (let f = implied_encoding self in
        case map_of (dict f) ''Encoding'' of
          None \<Rightarrow> (Inl KeyError, f)
        | Some encoding \<Rightarrow>
           if is_Name encoding \<and> in_names encoding named_encodings then
             (if encoding = Name ''WinAnsiEncoding'' then
                (Inr (encode_with (encode_cp1252 ext) unicode), f)
              else if encoding = Name ''MacRomanEncoding'' then
                (Inr (encode_with (encode_mac_roman ext) unicode), f)
              else if encoding = Name ''MacExpertEncoding'' then
                (Inr (encode_with (encode_mac_roman ext) unicode), f)
              else if encoding = Name ''StandardEncoding'' then
                (Inr (encode_with (adobe_standard_encode ext) unicode), f)
              else (Inr None, f))
           else if has_base_encoding encoding then
             (let r = read_encoding_with_differences ext f in
              case fst r of
                Some e \<Rightarrow> (Inl e, snd r)
              | None \<Rightarrow>
                 (Inr (map_of (unicode_lookup_to_character_identifier (snd r)) unicode), snd r))
           else (Inr None, f)))"

text \<open>
  One instance of the externals, for concrete runs: every codec is ASCII (the three codecs
  agree with ASCII on the letters and digits), glyph names stand for themselves, and the
  CMap parser reads the bytes two at a time as pairs of a character code and a code point.
\<close>

definition ascii_decode :: "nat list \<Rightarrow> error + string" where
  "ascii_decode bs =
    (if \<forall>b \<in> set bs. b < 128 then Inr (map char_of bs) else Inl UnicodeError)"

definition ascii_encode :: "string \<Rightarrow> error + nat list" where
  "ascii_encode u =
    (if \<forall>c \<in> set u. (of_char c :: nat) < 128 then Inr (map of_char u) else Inl UnicodeError)"

fun byte_pairs :: "nat list \<Rightarrow> (int \<times> string) list" where
  "byte_pairs (c # u # bs) = AList.update (int c) [char_of u] (byte_pairs bs)"
| "byte_pairs _ = []"

definition example_externals :: externals where
  "example_externals =
    \<lparr>decode_cp1252 = ascii_decode, decode_mac_roman = ascii_decode,
     adobe_standard_decode = ascii_decode, encode_cp1252 = ascii_encode,
     encode_mac_roman = ascii_encode, adobe_standard_encode = ascii_encode,
     glyph_to_unicode = (\<lambda>v. case v of Name s \<Rightarrow> s | _ \<Rightarrow> []),
     read_cmap = (\<lambda>v. case v of Bytes bs \<Rightarrow> Inr (byte_pairs bs) | _ \<Rightarrow> Inl TypeError)\<rparr>"

text \<open>Fonts for concrete runs.\<close>

definition winansi_font :: type1_font where
  "winansi_font = setitem ''Encoding'' (Name ''WinAnsiEncoding'') Type1Font"

definition to_unicode_font :: "nat list \<Rightarrow> type1_font" where
  "to_unicode_font cmap_bytes =
    setitem ''ToUnicode'' (Dictionary Stream [(''DecodedBytes'', Bytes cmap_bytes)]) winansi_font"

section \<open>Reading order (chunk\_of\_text\_render\_event.py, LeftToRightComparator)\<close>









section \<open>The catalog (read\_root\_dictionary\_transformer.py)\<close>

text \<open>The kids that the loop puts on its work list for \<open>obj\<close>: those of a dictionary
  with \<open>Type\<close> \<open>Pages\<close> whose \<open>Kids\<close> entry is a list.\<close>

fun pages_kids :: "pdf \<Rightarrow> pdf list option" where
  "pages_kids (Dictionary c entries) =
    (case map_of entries ''Type'' of
       None \<Rightarrow> None
     | Some t \<Rightarrow>
        if t = Name ''Pages'' then
          (case map_of entries ''Kids'' of
             Some (pList kids) \<Rightarrow> Some kids
           | _ \<Rightarrow> None)
        else None)"
| "pages_kids _ = None"

lemma size_map_of:
  "map_of entries k = Some v \<Longrightarrow> size v < Suc (size_list (size_prod (\<lambda>_. 0) size) entries)"
  by (induction entries) (auto split: if_splits)

lemma pages_kids_size:
  assumes k: "pages_kids obj = Some kids"
  shows "sum_list (map (\<lambda>k. Suc (size k)) kids) < size obj"
proof (cases obj)
  case (Dictionary c entries)
  from k Dictionary have "map_of entries ''Kids'' = Some (pList kids)"
    by (auto split: option.splits if_splits pdf.splits)
  from size_map_of [OF this]
  have "size (pList kids) < Suc (size_list (size_prod (\<lambda>_. 0) size) entries)" .
  moreover have "sum_list (map (\<lambda>k. Suc (size k)) kids) = size_list size kids"
    by (induction kids) auto
  ultimately show ?thesis using Dictionary by simp
qed (use k in simp_all)

text \<open>
  The loop \<^verbatim>\<open>while len(stack_to_handle) > 0\<close>: \<open>pop(0)\<close> takes the first element of the
  work list, \<open>append\<close> puts a page at the end of \<open>pages_in_order\<close> and the kids at the end
  of the work list.
\<close>

function dfs :: "pdf list \<Rightarrow> pdf list \<Rightarrow> pdf list" where
  "dfs [] pages_in_order = pages_in_order"
| "dfs (obj # stack_to_handle) pages_in_order =
    dfs (case pages_kids obj of None \<Rightarrow> stack_to_handle | Some kids \<Rightarrow> stack_to_handle @ kids)
        (if is_Page obj then pages_in_order @ [obj] else pages_in_order)"
  by pat_completeness auto
termination
proof (relation "measure (\<lambda>(stack, pages). sum_list (map (\<lambda>k. Suc (size k)) stack))")
  show "wf (measure (\<lambda>(stack, pages). sum_list (map (\<lambda>k. Suc (size k)) stack)))" by simp
next
  fix obj stack_to_handle pages_in_order
  show "((case pages_kids obj of None \<Rightarrow> stack_to_handle | Some kids \<Rightarrow> stack_to_handle @ kids,
          if is_Page obj then pages_in_order @ [obj] else pages_in_order),
         obj # stack_to_handle, pages_in_order)
        \<in> measure (\<lambda>(stack, pages). sum_list (map (\<lambda>k. Suc (size k)) stack))"
  proof (cases "pages_kids obj")
    case None
    then show ?thesis by simp
  next
    case (Some kids)
    with pages_kids_size [OF Some] show ?thesis by simp
  qed
qed

text \<open>
  \<open>ReadRootDictionaryTransformer.transform\<close>. The generic dictionary transformer among
  the children of the root transformer is a parameter (\<open>None\<close>: no child is one); it
  returns the transformed catalog or raises. The event listeners are attached to the
  object and touch no entry of it; they are left out. \<open>Pages\<close> is updated in place: a
  \<open>Pages\<close> entry that is no dictionary takes no item assignment.
\<close>

definition transform :: "(pdf \<Rightarrow> error + pdf) option \<Rightarrow> pdf \<Rightarrow> error + pdf" where
  "transform dictionary_transformer object_to_transform =
    (if \<not> is_Dictionary object_to_transform then Inl AssertionError
     else case dictionary_transformer of
       None \<Rightarrow> Inl AssertionError
     | Some t \<Rightarrow>
        (case t object_to_transform of
           Inl e \<Rightarrow> Inl e
         | Inr (Dictionary c entries) \<Rightarrow>
            (case map_of entries ''Pages'' of
               None \<Rightarrow> Inl KeyError
             | Some pages \<Rightarrow>
                (let pages_in_order = dfs [pages] [] in
                 case pages of
                   Dictionary pc pentries \<Rightarrow>
                     Inr (Dictionary c
                       (AList.update ''Pages''
                         (Dictionary pc
                           (AList.update ''Count'' (Decimal (of_nat (length pages_in_order)))
                             (AList.update ''Kids'' (pList pages_in_order) pentries)))
                         entries))
                 | _ \<Rightarrow> Inl TypeError))
         | Inr _ \<Rightarrow> Inl AssertionError))"

text \<open>Page trees for concrete runs: a page with a label, an inner node, a catalog.\<close>

definition page :: "string \<Rightarrow> pdf" where
  "page n = Dictionary Page [(''Type'', Name ''Page''), (''Label'', String n)]"

definition pages_node :: "pdf list \<Rightarrow> pdf" where
  "pages_node kids =
    Dictionary PlainDictionary
      [(''Type'', Name ''Pages''), (''Kids'', pList kids),
       (''Count'', Decimal (of_nat (length kids)))]"

definition catalog :: "pdf \<Rightarrow> pdf" where
  "catalog p = Dictionary PlainDictionary [(''Type'', Name ''Catalog''), (''Pages'', p)]"

text \<open>The catalog with \<open>Pages.Kids = [Pages(Kids=[Page_A, Page_B]), Page_C]\<close>.\<close>

definition nested_catalog :: pdf where
  "nested_catalog = catalog (pages_node [pages_node [page ''A'', page ''B''], page ''C''])"

section \<open>The content-stream interpreter (canvas.py)\<close>

text \<open>
  The tokenizer is outside the sources: the stream is the list of what \<open>read_object\<close>
  returns, an operand, an operator name, or \<open>None\<close>. The canvas is the state that the
  loop and the operators share; the graphics state is a type parameter. An operator has
  its arity and its \<open>invoke\<close>, which returns the canvas as it left it and the exception it
  raised, if any. The operator table is a parameter of \<open>read\<close>.
\<close>

datatype token = Operand pdf | CanvasOperatorName string

record 'g canvas =
  in_compatibility_section :: bool
  graphics_state :: 'g
  marked_content_stack :: "pdf list"
  graphics_state_stack :: "'g list"

record 'g canvas_operator =
  get_number_of_operands :: nat
  invoke :: "'g canvas \<Rightarrow> pdf list \<Rightarrow> 'g canvas \<times> error option"

text \<open>
  \<open>Canvas.read\<close>. Outside a compatibility section the assertion on the depth of the
  operand stack comes first; inside one it is skipped and \<open>operand_stk.pop(-1)\<close> raises
  \<open>IndexError\<close> on the empty stack, before the \<^verbatim>\<open>try\<close>. The handler reads
  \<open>in_compatibility_section\<close> after the operator has run.
\<close>

fun read ::
  "(string \<Rightarrow> 'g canvas_operator option) \<Rightarrow> token option list \<Rightarrow> pdf list \<Rightarrow> 'g canvas
    \<Rightarrow> error + 'g canvas" where
  "read canvas_operators [] operand_stk self = Inr self"
| "read canvas_operators (None # rest) operand_stk self = Inr self"
| "read canvas_operators (Some (Operand obj) # rest) operand_stk self =
     read canvas_operators rest (operand_stk @ [obj]) self"
| "read canvas_operators (Some (CanvasOperatorName obj) # rest) operand_stk self =
    (case canvas_operators obj of
       None \<Rightarrow> read canvas_operators rest operand_stk self
     | Some operator \<Rightarrow>
        (let n = get_number_of_operands operator in
         if \<not> in_compatibility_section self \<and> length operand_stk < n then Inl AssertionError
         else if length operand_stk < n then Inl IndexError
         else
          (let operands = drop (length operand_stk - n) operand_stk;
               remaining = take (length operand_stk - n) operand_stk;
               r = invoke operator self operands
           in case snd r of
                None \<Rightarrow> read canvas_operators rest remaining (fst r)
              | Some e \<Rightarrow>
                  if \<not> in_compatibility_section (fst r) then Inl e
                  else read canvas_operators rest remaining (fst r))))"

text \<open>
  Modelled from the spec: the operator classes are not among the sources. \<open>BX\<close> sets the
  flag \<open>in_compatibility_section\<close> and \<open>EX\<close> clears it; \<open>q\<close> pushes a copy of the
  current graphics state and \<open>Q\<close> pops it, failing with \<open>GraphicsStateUnderflow\<close> on an
  empty stack; \<open>w\<close> takes one operand, the line width (the arities are those of PDF 1.7).
  The graphics state of this instance is the line width alone.
\<close>

definition BeginCompatibilitySection :: "'g canvas_operator" where
  "BeginCompatibilitySection =
    \<lparr>get_number_of_operands = 0,
     invoke = (\<lambda>cv operands. (cv\<lparr>in_compatibility_section := True\<rparr>, None))\<rparr>"

definition EndCompatibilitySection :: "'g canvas_operator" where
  "EndCompatibilitySection =
    \<lparr>get_number_of_operands = 0,
     invoke = (\<lambda>cv operands. (cv\<lparr>in_compatibility_section := False\<rparr>, None))\<rparr>"

definition PushGraphicsState :: "'g canvas_operator" where
  "PushGraphicsState =
    \<lparr>get_number_of_operands = 0,
     invoke = (\<lambda>cv operands.
       (cv\<lparr>graphics_state_stack := graphics_state_stack cv @ [graphics_state cv]\<rparr>, None))\<rparr>"

definition PopGraphicsState :: "'g canvas_operator" where
  "PopGraphicsState =
    \<lparr>get_number_of_operands = 0,
     invoke = (\<lambda>cv operands.
       if graphics_state_stack cv = [] then (cv, Some GraphicsStateUnderflow)
       else (cv\<lparr>graphics_state := last (graphics_state_stack cv),
                 graphics_state_stack := butlast (graphics_state_stack cv)\<rparr>, None))\<rparr>"

definition SetLineWidth :: "pdf canvas_operator" where
  "SetLineWidth =
    \<lparr>get_number_of_operands = 1,
     invoke = (\<lambda>cv operands.
       case operands of [w] \<Rightarrow> (cv\<lparr>graphics_state := w\<rparr>, None) | _ \<Rightarrow> (cv, Some IndexError))\<rparr>"

definition canvas_operators :: "string \<Rightarrow> pdf canvas_operator option" where
  "canvas_operators =
    map_of [(''BX'', BeginCompatibilitySection), (''EX'', EndCompatibilitySection),
            (''q'', PushGraphicsState), (''Q'', PopGraphicsState), (''w'', SetLineWidth)]"

text \<open>\<open>Canvas.__init__\<close>, with line width 1.\<close>

definition Canvas :: "pdf canvas" where
  "Canvas =
    \<lparr>in_compatibility_section = False, graphics_state = Decimal 1,
     marked_content_stack = [], graphics_state_stack = []\<rparr>"

section \<open>Reference allocation (write\_base\_transformer.py)\<close>

text \<open>
  Objects live at addresses: \<open>id(object)\<close> is the address, the map \<open>objects\<close> gives the
  value at an address, and the \<open>_reference\<close> attribute of every object is the map
  \<open>refs\<close>, which \<open>get_reference\<close> updates. The values are not changed during a pass.

  Modelled from the spec: the object model of \<open>ptext.io.read.types\<close> is not among the
  sources. \<open>equals\<close> is structural equality of values, here the equality of the type of
  values, and a hash is a function of the value, so equal values have equal hashes.
  \<open>hash(obj)\<close>, \<open>obj.__hash__()\<close> (\<open>None\<close> when it raises) and \<open>isinstance(obj, Reference)\<close>
  are parameters.
\<close>

record reference =
  object_number :: "int option"
  generation_number :: "int option"
  byte_offset :: "int option"

record 'v object_model =
  builtin_hash :: "'v \<Rightarrow> int option"
  dunder_hash :: "'v \<Rightarrow> int option"
  is_Reference :: "'v \<Rightarrow> bool"

text \<open>\<open>WriteTransformerContext\<close>: the two registries, each a \<open>dict\<close>; the destination and
  the root object play no part in the allocation.\<close>

record write_transformer_context =
  indirect_objects_by_id :: "(nat \<times> nat) list"
  indirect_objects_by_hash :: "(int \<times> nat list) list"
  resolved_references :: "reference list"
  compression_level :: nat

definition WriteTransformerContext :: write_transformer_context where
  "WriteTransformerContext =
    \<lparr>indirect_objects_by_id = [], indirect_objects_by_hash = [],
     resolved_references = [], compression_level = 9\<rparr>"

text \<open>\<open>WriteBaseTransformer._hash\<close>: the result of \<open>__hash__()\<close> if that call returns, else
  that of \<open>hash\<close>, else \<open>TypeError\<close>.\<close>

definition hash_of :: "'v object_model \<Rightarrow> 'v \<Rightarrow> error + int" where
  "hash_of om obj =
    (case dunder_hash om obj of
       Some h \<Rightarrow> Inr h
     | None \<Rightarrow> (case builtin_hash om obj of Some h \<Rightarrow> Inr h | None \<Rightarrow> Inl TypeError))"

text \<open>
  Modelled from the spec: \<open>set_reference\<close> of the object model, not among the sources.
  A reference is set at most once; setting one with a different object number fails with
  \<open>ReferenceConflict\<close>. The result is the new value of the attribute.
\<close>

definition set_reference :: "reference option \<Rightarrow> reference \<Rightarrow> error + reference" where
  "set_reference current new =
    (case current of
       None \<Rightarrow> Inr new
     | Some old \<Rightarrow>
        if object_number old = object_number new then Inr new else Inl ReferenceConflict)"

text \<open>The object numbers of the registered items, in the order of the comprehension; an
  item without a reference has no \<open>object_number\<close> to read.\<close>

fun existing_obj_numbers ::
  "(nat \<Rightarrow> reference option) \<Rightarrow> nat list \<Rightarrow> error + int option list" where
  "existing_obj_numbers refs [] = Inr []"
| "existing_obj_numbers refs (item # items) =
    (case refs item of
       None \<Rightarrow> Inl AttributeError
     | Some r \<Rightarrow>
        (case existing_obj_numbers refs items of
           Inl e \<Rightarrow> Inl e
         | Inr ns \<Rightarrow> Inr (object_number r # ns)))"

text \<open>\<^verbatim>\<open>while obj_number in existing_obj_numbers: obj_number += 1\<close>\<close>

function next_free :: "int option list \<Rightarrow> int \<Rightarrow> int" where
  "next_free existing obj_number =
    (if Some obj_number \<in> set existing then next_free existing (obj_number + 1)
     else obj_number)"
  by pat_completeness auto
termination
proof (relation
    "measure (\<lambda>(existing, n). nat (Max (insert 0 {m. Some m \<in> set existing}) + 1 - n))")
  show "wf (measure (\<lambda>(existing, n). nat (Max (insert 0 {m. Some m \<in> set existing}) + 1 - n)))"
    by simp
next
  fix existing :: "int option list" and obj_number :: int
  assume a: "Some obj_number \<in> set existing"
  have fin: "finite {m. Some m \<in> set existing}"
  proof -
    have "{m. Some m \<in> set existing} \<subseteq> the ` set existing" by force
    then show ?thesis by (rule finite_subset) simp
  qed
  from a fin have "obj_number \<le> Max (insert 0 {m. Some m \<in> set existing})"
    by (intro Max_ge) auto
  then show "((existing, obj_number + 1), existing, obj_number)
      \<in> measure (\<lambda>(existing, n). nat (Max (insert 0 {m. Some m \<in> set existing}) + 1 - n))"
    by simp
qed

text \<open>
  \<open>WriteBaseTransformer.get_reference\<close>, on the state of the references and the context.
  It returns the reference (\<open>None\<close> if the cached object has none) and the new state.
\<close>

definition get_reference ::
  "'v object_model \<Rightarrow> (nat \<Rightarrow> 'v) \<Rightarrow> nat
    \<Rightarrow> (nat \<Rightarrow> reference option) \<times> write_transformer_context
    \<Rightarrow> error + (reference option \<times> (nat \<Rightarrow> reference option) \<times> write_transformer_context)"
  where
  "get_reference om objects object state =
    (let refs = fst state; context = snd state in
     case map_of (indirect_objects_by_id context) object of
       Some cached_indirect_object \<Rightarrow>
         if is_Reference om (objects cached_indirect_object) then Inl AssertionError
         else Inr (refs cached_indirect_object, refs, context)
     | None \<Rightarrow>
        (case hash_of om (objects object) of
           Inl e \<Rightarrow> Inl e
         | Inr obj_hash \<Rightarrow>
            (let bucket = (case map_of (indirect_objects_by_hash context) obj_hash of
                             None \<Rightarrow> [] | Some b \<Rightarrow> b)
             in case find (\<lambda>obj. objects obj = objects object) bucket of
               Some obj \<Rightarrow>
                 (case refs obj of
                    None \<Rightarrow> Inl AssertionError
                  | Some ref \<Rightarrow>
                     (case set_reference (refs object) ref of
                        Inl e \<Rightarrow> Inl e
                      | Inr r \<Rightarrow> Inr (Some ref, refs(object \<mapsto> r), context)))
             | None \<Rightarrow>
                 (case existing_obj_numbers refs
                         (concat (map snd (indirect_objects_by_hash context))) of
                    Inl e \<Rightarrow> Inl e
                  | Inr existing \<Rightarrow>
                     (let obj_number = next_free existing (int (length (remdups existing)) + 1);
                          ref = \<lparr>object_number = Some obj_number, generation_number = None,
                                 byte_offset = None\<rparr>
                      in case set_reference (refs object) ref of
                           Inl e \<Rightarrow> Inl e
                         | Inr r \<Rightarrow>
                            Inr (Some ref, refs(object \<mapsto> r),
                              context\<lparr>indirect_objects_by_hash :=
                                  AList.update obj_hash (bucket @ [object])
                                    (indirect_objects_by_hash context),
                                indirect_objects_by_id :=
                                  AList.update object object
                                    (indirect_objects_by_id context)\<rparr>))))))"

text \<open>A write pass registers objects one after the other; an exception ends it.\<close>

fun register_all ::
  "'v object_model \<Rightarrow> (nat \<Rightarrow> 'v) \<Rightarrow> nat list
    \<Rightarrow> (nat \<Rightarrow> reference option) \<times> write_transformer_context
    \<Rightarrow> error + (nat \<Rightarrow> reference option) \<times> write_transformer_context" where
  "register_all om objects [] state = Inr state"
| "register_all om objects (object # rest) state =
    (case get_reference om objects object state of
       Inl e \<Rightarrow> Inl e
     | Inr (ref, state') \<Rightarrow> register_all om objects rest state')"

text \<open>An object model for concrete runs on the values above: every value hashes to the
  size of its tree, and none of them is a \<open>Reference\<close>.\<close>

definition example_model :: "pdf object_model" where
  "example_model =
    \<lparr>builtin_hash = (\<lambda>v. Some (int (size v))), dunder_hash = (\<lambda>v. None),
     is_Reference = (\<lambda>v. False)\<rparr>"

text \<open>Two objects with the same font dictionary, at the addresses 0 and 1.\<close>

definition font_dictionary :: pdf where
  "font_dictionary =
    Dictionary PlainDictionary [(''Type'', Name ''Font''), (''Subtype'', Name ''Type1'')]"

definition two_fonts :: "nat \<Rightarrow> pdf" where
  "two_fonts a = font_dictionary"

text \<open>
  The invariant of a write pass, for the set \<open>registered\<close> of the objects that
  \<open>get_reference\<close> has returned for: the registry by hash has one bucket per hash, the
  registry by identity maps every address to itself and holds the objects of the buckets,
  every object in a bucket is in the bucket of its hash and has a numbered reference, no two
  of them are equal or share their number, and every registered object has the number of
  an object in a bucket that is equal to it.
\<close>

definition minted :: "write_transformer_context \<Rightarrow> nat set" where
  "minted context = set (concat (map snd (indirect_objects_by_hash context)))"

definition registry_invariant ::
  "'v object_model \<Rightarrow> (nat \<Rightarrow> 'v) \<Rightarrow> nat set
    \<Rightarrow> (nat \<Rightarrow> reference option) \<times> write_transformer_context \<Rightarrow> bool" where
  "registry_invariant om objects registered state =
    (distinct (map fst (indirect_objects_by_hash (snd state)))
     \<and> dom (map_of (indirect_objects_by_id (snd state))) = minted (snd state)
     \<and> (\<forall>x c. map_of (indirect_objects_by_id (snd state)) x = Some c \<longrightarrow> c = x)
     \<and> (\<forall>h b x. map_of (indirect_objects_by_hash (snd state)) h = Some b \<and> x \<in> set b
           \<longrightarrow> hash_of om (objects x) = Inr h)
     \<and> (\<forall>x \<in> minted (snd state). \<exists>r n. fst state x = Some r \<and> object_number r = Some n)
     \<and> (\<forall>x \<in> minted (snd state). \<forall>y \<in> minted (snd state).
           objects x = objects y
           \<or> object_number (the (fst state x)) = object_number (the (fst state y))
           \<longrightarrow> x = y)
     \<and> (\<forall>a \<in> registered. \<exists>m \<in> minted (snd state). \<exists>ra rm.
           objects m = objects a \<and> fst state a = Some ra \<and> fst state m = Some rm
           \<and> object_number ra = object_number rm))"

section \<open>The specification's wording\<close>

text \<open>The pages of a tree in depth-first preorder: a node before its kids, the kids in
  array order, each with its whole subtree.\<close>

lemma size_member: "k \<in> set kids \<Longrightarrow> size k < sum_list (map (\<lambda>k. Suc (size k)) kids)"
  by (induction kids) auto

function preorder :: "pdf \<Rightarrow> pdf list" where
  "preorder obj =
    (if is_Page obj then [obj] else []) @
    (case pages_kids obj of None \<Rightarrow> [] | Some kids \<Rightarrow> concat (map preorder kids))"
  by pat_completeness auto
termination
proof (relation "measure size")
  show "wf (measure size)" by simp
next
  fix obj kids k
  assume "pages_kids obj = Some kids" and "k \<in> set kids"
  with pages_kids_size [of obj kids] size_member [of k kids]
  show "(k, obj) \<in> measure size" by simp
qed





chapter \<open>Properties\<close>

section \<open>The font-name canonicalisation\<close>

lemma first_match_Some:
  "first_match c ns = Some n \<Longrightarrow> n \<in> set ns \<and> to_lower_and_alpha n = c"
  by (induction ns) (auto split: if_splits)

lemma first_match_None:
  "first_match c ns = None \<Longrightarrow> n \<in> set ns \<Longrightarrow> to_lower_and_alpha n \<noteq> c"
  by (induction ns) (auto split: if_splits)

lemma canonical_helveticabold: "canonical_name ''helveticabold'' = Some ''Helvetica-Bold''"
  by code_simp

lemma canonical_Helvetica_Bold: "canonical_name ''Helvetica-Bold'' = Some ''Helvetica-Bold''"
  by code_simp

lemma canonical_HELVETICA_BOLD: "canonical_name ''HELVETICA BOLD'' = Some ''Helvetica-Bold''"
  by code_simp

lemma canonical_Arial: "canonical_name ''Arial'' = None"
  by code_simp

text \<open>
  Claim C9. The canonicalisation lowercases its input and keeps only the letters
  \<open>a..z\<close>, and returns the first of the fourteen standard names whose canonical form is
  the same: a returned name is one of the fourteen and agrees with the input after
  canonicalisation, and \<open>None\<close> is returned only when no standard name agrees.
  \<open>helveticabold\<close>, \<open>Helvetica-Bold\<close> and \<open>HELVETICA BOLD\<close> resolve to
  \<open>Helvetica-Bold\<close>; \<open>Arial\<close> resolves to \<open>None\<close>.
\<close>

theorem canonical_name_standard_14:
  "to_lower_and_alpha s = filter (\<lambda>c. c \<in> set ''abcdefghijklmnopqrstuvwxyz'') (lower s)
   \<and> (canonical_name s = Some n \<longrightarrow>
        n \<in> set STANDARD_14_FONT_NAMES \<and> to_lower_and_alpha n = to_lower_and_alpha s)
   \<and> (canonical_name s = None \<longrightarrow>
        (\<forall>m \<in> set STANDARD_14_FONT_NAMES. to_lower_and_alpha m \<noteq> to_lower_and_alpha s))
   \<and> canonical_name ''helveticabold'' = Some ''Helvetica-Bold''
   \<and> canonical_name ''Helvetica-Bold'' = Some ''Helvetica-Bold''
   \<and> canonical_name ''HELVETICA BOLD'' = Some ''Helvetica-Bold''
   \<and> canonical_name ''Arial'' = None"
proof -
  have a: "canonical_name s = Some n \<longrightarrow>
        n \<in> set STANDARD_14_FONT_NAMES \<and> to_lower_and_alpha n = to_lower_and_alpha s"
    unfolding canonical_name_def using first_match_Some by blast
  have b: "canonical_name s = None \<longrightarrow>
        (\<forall>m \<in> set STANDARD_14_FONT_NAMES. to_lower_and_alpha m \<noteq> to_lower_and_alpha s)"
    unfolding canonical_name_def using first_match_None by blast
  show ?thesis
    using a b canonical_helveticabold canonical_Helvetica_Bold canonical_HELVETICA_BOLD
      canonical_Arial
    by (simp only: to_lower_and_alpha_def simp_thms)
qed

theorem canonical_name_standard_14_witness:
  "canonical_name ''HELVETICA BOLD'' = Some ''Helvetica-Bold''
   \<and> ''Helvetica-Bold'' \<in> set STANDARD_14_FONT_NAMES
   \<and> to_lower_and_alpha ''Helvetica-Bold'' = to_lower_and_alpha ''HELVETICA BOLD''"
  using canonical_name_standard_14 [of "''HELVETICA BOLD''" "''Helvetica-Bold''"]
  by (simp only: simp_thms)

section \<open>Character identifiers and Unicode\<close>

lemma update_absent: "map_of al k = None \<Longrightarrow> AList.update k v al = al @ [(k, v)]"
  by (induction al) (auto split: if_splits)

lemma implied_encoding_absent:
  assumes "map_of (dict f) ''Encoding'' = None"
  shows "dict (implied_encoding f) = dict f @ [(''Encoding'', Name ''StandardEncoding'')]"
    and "map_of (dict (implied_encoding f)) ''Encoding'' = Some (Name ''StandardEncoding'')"
proof -
  show "dict (implied_encoding f) = dict f @ [(''Encoding'', Name ''StandardEncoding'')]"
    using assms by (simp add: implied_encoding_def setitem_def update_absent)
  show "map_of (dict (implied_encoding f)) ''Encoding'' = Some (Name ''StandardEncoding'')"
    using assms by (simp add: implied_encoding_def setitem_def update_conv')
qed

lemma standard_encoding_named: "in_names (Name ''StandardEncoding'') named_encodings"
  by (simp add: in_names_def named_encodings_def)

text \<open>
  Claim C10. On a font whose dictionary has neither \<open>ToUnicode\<close> nor \<open>Encoding\<close>, both
  lookups leave the dictionary with the entry \<open>Encoding\<close> = \<open>Name("StandardEncoding")\<close>
  added at its end and every other entry as it was, whatever they return or raise; the
  memoised tables are not touched.
\<close>

theorem lookup_inserts_standard_encoding:
  assumes "map_of (dict f) ''ToUnicode'' = None" and "map_of (dict f) ''Encoding'' = None"
  shows "dict (snd (character_identifier_to_unicode ext f cid)) =
           dict f @ [(''Encoding'', Name ''StandardEncoding'')]
       \<and> dict (snd (unicode_to_character_identifier ext f u)) =
           dict f @ [(''Encoding'', Name ''StandardEncoding'')]
       \<and> snd (character_identifier_to_unicode ext f cid) = implied_encoding f
       \<and> snd (unicode_to_character_identifier ext f u) = implied_encoding f
       \<and> character_identifier_to_unicode_lookup (implied_encoding f) =
           character_identifier_to_unicode_lookup f
       \<and> unicode_lookup_to_character_identifier (implied_encoding f) =
           unicode_lookup_to_character_identifier f"
proof -
  have a: "snd (character_identifier_to_unicode ext f cid) = implied_encoding f"
    using assms
    by (simp add: character_identifier_to_unicode_def Let_def implied_encoding_absent(2)
        standard_encoding_named)
  have b: "snd (unicode_to_character_identifier ext f u) = implied_encoding f"
    using assms
    by (simp add: unicode_to_character_identifier_def Let_def implied_encoding_absent(2)
        standard_encoding_named)
  have c: "character_identifier_to_unicode_lookup (implied_encoding f) =
           character_identifier_to_unicode_lookup f
       \<and> unicode_lookup_to_character_identifier (implied_encoding f) =
           unicode_lookup_to_character_identifier f"
    by (simp add: implied_encoding_def setitem_def)
  show ?thesis
    using a b c implied_encoding_absent(1) [OF assms(2)] by simp
qed

theorem lookup_inserts_standard_encoding_witness:
  "map_of (dict Type1Font) ''ToUnicode'' = None \<and> map_of (dict Type1Font) ''Encoding'' = None
   \<and> dict (snd (character_identifier_to_unicode example_externals Type1Font 65)) =
       [(''Type'', Name ''Font''), (''Subtype'', Name ''Type1''),
        (''Encoding'', Name ''StandardEncoding'')]
   \<and> dict (snd (unicode_to_character_identifier example_externals Type1Font ''A'')) =
       [(''Type'', Name ''Font''), (''Subtype'', Name ''Type1''),
        (''Encoding'', Name ''StandardEncoding'')]"
proof -
  have h: "map_of (dict Type1Font) ''ToUnicode'' = None"
    "map_of (dict Type1Font) ''Encoding'' = None"
    by (simp_all add: Type1Font_def)
  have d: "dict Type1Font = [(''Type'', Name ''Font''), (''Subtype'', Name ''Type1'')]"
    by (simp add: Type1Font_def)
  note t = lookup_inserts_standard_encoding [OF h, of example_externals 65 "''A''"]
  from t have a: "dict (snd (character_identifier_to_unicode example_externals Type1Font 65)) =
      dict Type1Font @ [(''Encoding'', Name ''StandardEncoding'')]"
    by (rule conjunct1)
  from t have b: "dict (snd (unicode_to_character_identifier example_externals Type1Font ''A'')) =
      dict Type1Font @ [(''Encoding'', Name ''StandardEncoding'')]"
    by blast
  show ?thesis
    unfolding a b using h d by simp
qed

lemma winansi_letter_A:
  "fst (character_identifier_to_unicode example_externals winansi_font 65) = Inr (Some ''A'')"
  by code_simp

text \<open>
  Claim C6. On a font with a \<open>ToUnicode\<close> stream whose decoded bytes parse to the table
  \<open>cmap\<close>, and whose memoised tables are empty (as the constructor leaves them) or hold
  that table (as an earlier lookup leaves them), \<open>character_identifier_to_unicode\<close>
  returns what \<open>cmap\<close> holds for the character identifier and \<open>None\<close> for one that
  \<open>cmap\<close> lacks, whatever \<open>Encoding\<close> says. The lookup leaves the dictionary as it was
  and the tables holding \<open>cmap\<close>, so the same is true of every later lookup.
\<close>

theorem to_unicode_takes_precedence:
  assumes "map_of (dict f) ''ToUnicode'' = Some (Dictionary c stream)"
    and "map_of stream ''DecodedBytes'' = Some cmap_bytes"
    and "read_cmap ext cmap_bytes = Inr cmap"
    and "unicode_lookup_to_character_identifier f = []
       \<or> (character_identifier_to_unicode_lookup f = cmap
          \<and> unicode_lookup_to_character_identifier f = reverse_lookup cmap)"
  shows "fst (character_identifier_to_unicode ext f cid) = Inr (map_of cmap cid)
       \<and> (cid \<notin> fst ` set cmap \<longrightarrow> fst (character_identifier_to_unicode ext f cid) = Inr None)
       \<and> dict (snd (character_identifier_to_unicode ext f cid)) = dict f
       \<and> character_identifier_to_unicode_lookup (snd (character_identifier_to_unicode ext f cid)) =
           cmap
       \<and> unicode_lookup_to_character_identifier (snd (character_identifier_to_unicode ext f cid)) =
           reverse_lookup cmap"
proof -
  have r: "fst (read_to_unicode ext f) = None
      \<and> dict (snd (read_to_unicode ext f)) = dict f
      \<and> character_identifier_to_unicode_lookup (snd (read_to_unicode ext f)) = cmap
      \<and> unicode_lookup_to_character_identifier (snd (read_to_unicode ext f)) =
          reverse_lookup cmap"
    using assms by (auto simp: read_to_unicode_def Let_def)
  have s: "snd (character_identifier_to_unicode ext f cid) = snd (read_to_unicode ext f)"
    using assms(1) r by (simp add: character_identifier_to_unicode_def Let_def)
  have "fst (character_identifier_to_unicode ext f cid) = Inr (map_of cmap cid)"
    using assms(1) r by (simp add: character_identifier_to_unicode_def Let_def)
  moreover have "map_of cmap cid = None" if "cid \<notin> fst ` set cmap"
    using that by (simp add: map_of_eq_None_iff)
  ultimately show ?thesis using r s by simp
qed

theorem to_unicode_takes_precedence_witness:
  "map_of (dict (to_unicode_font [66, 66])) ''ToUnicode'' =
     Some (Dictionary Stream [(''DecodedBytes'', Bytes [66, 66])])
   \<and> map_of (dict (to_unicode_font [66, 66])) ''Encoding'' = Some (Name ''WinAnsiEncoding'')
   \<and> read_cmap example_externals (Bytes [66, 66]) = Inr [(66, ''B'')]
   \<and> fst (character_identifier_to_unicode example_externals winansi_font 65) = Inr (Some ''A'')
   \<and> fst (character_identifier_to_unicode example_externals (to_unicode_font [66, 66]) 65) =
       Inr None
   \<and> fst (character_identifier_to_unicode example_externals (to_unicode_font [66, 66]) 66) =
       Inr (Some ''B'')"
proof -
  have h1: "map_of (dict (to_unicode_font [66, 66])) ''ToUnicode'' =
     Some (Dictionary Stream [(''DecodedBytes'', Bytes [66, 66])])"
    by code_simp
  have h2: "map_of [(''DecodedBytes'', Bytes [66, 66])] ''DecodedBytes'' = Some (Bytes [66, 66])"
    by simp
  have h3: "read_cmap example_externals (Bytes [66, 66]) = Inr [(66, ''B'')]"
    by code_simp
  have h4: "unicode_lookup_to_character_identifier (to_unicode_font [66, 66]) = []
       \<or> (character_identifier_to_unicode_lookup (to_unicode_font [66, 66]) = [(66, ''B'')]
          \<and> unicode_lookup_to_character_identifier (to_unicode_font [66, 66]) =
              reverse_lookup [(66, ''B'')])"
    by (simp add: to_unicode_font_def winansi_font_def Type1Font_def setitem_def)
  have h5: "map_of (dict (to_unicode_font [66, 66])) ''Encoding'' = Some (Name ''WinAnsiEncoding'')"
    by code_simp
  from to_unicode_takes_precedence [OF h1 h2 h3 h4, of 65]
    to_unicode_takes_precedence [OF h1 h2 h3 h4, of 66] h1 h3 h5 winansi_letter_A
  show ?thesis by simp
qed

text \<open>
  Claim C4 fails on the code. The bound check lets the character identifier 256 through,
  \<open>bytes([256])\<close> raises \<open>ValueError\<close>, and nothing in
  \<open>character_identifier_to_unicode\<close> catches it: with any codecs, the lookup of 256 in a
  font with \<open>Encoding\<close> = \<open>WinAnsiEncoding\<close> ends in that error, not in \<open>None\<close>.
\<close>

theorem character_identifier_256_raises:
  "fst (character_identifier_to_unicode ext winansi_font 256) = Inl ValueError"
  by (simp add: character_identifier_to_unicode_def winansi_font_def Type1Font_def setitem_def
      implied_encoding_def in_names_def named_encodings_def decode_with_def bytes_of_def)

text \<open>
  Claim C3 fails on the code. With codecs that map the byte 65 to \<open>A\<close> and back, as
  \<open>cp1252\<close> does, a font with \<open>Encoding\<close> = \<open>WinAnsiEncoding\<close> maps the character
  identifier 65 to \<open>A\<close>, and maps \<open>A\<close> to \<open>None\<close>: \<open>int(b"A")\<close> reads the encoded bytes
  as a decimal literal and raises, and the handler turns that into \<open>None\<close>.
\<close>

theorem winansi_round_trip_fails:
  assumes "decode_cp1252 ext [65] = Inr ''A''" and "encode_cp1252 ext ''A'' = Inr [65]"
  shows "fst (character_identifier_to_unicode ext winansi_font 65) = Inr (Some ''A'')
       \<and> fst (unicode_to_character_identifier ext winansi_font ''A'') = Inr None"
proof -
  have "int_of_bytes [65] = Inl ValueError"
    by (simp add: int_of_bytes_def is_space_def is_digit_def)
  then show ?thesis
    using assms
    by (simp add: character_identifier_to_unicode_def unicode_to_character_identifier_def
        winansi_font_def Type1Font_def setitem_def implied_encoding_def in_names_def
        named_encodings_def decode_with_def bytes_of_def encode_with_def)
qed

theorem winansi_round_trip_fails_witness:
  "decode_cp1252 example_externals [65] = Inr ''A''
   \<and> encode_cp1252 example_externals ''A'' = Inr [65]
   \<and> fst (character_identifier_to_unicode example_externals winansi_font 65) = Inr (Some ''A'')
   \<and> fst (unicode_to_character_identifier example_externals winansi_font ''A'') = Inr None"
proof -
  have h1: "decode_cp1252 example_externals [65] = Inr ''A''" by code_simp
  have h2: "encode_cp1252 example_externals ''A'' = Inr [65]" by code_simp
  from winansi_round_trip_fails [OF h1 h2] h1 h2 show ?thesis by simp
qed

section \<open>The reading-order comparator\<close>









section \<open>The flattened page list\<close>

lemma dfs_pages: "list_all is_Page pages_in_order \<Longrightarrow> list_all is_Page (dfs stack pages_in_order)"
  by (induction stack pages_in_order rule: dfs.induct) simp_all

lemma transform_result:
  assumes "transform dictionary_transformer object_to_transform = Inr transformed"
  shows "\<exists>c es pc pes kids.
      transformed = Dictionary c (AList.update ''Pages''
        (Dictionary pc (AList.update ''Count'' (Decimal (of_nat (length kids)))
           (AList.update ''Kids'' (pList kids) pes))) es)
      \<and> list_all is_Page kids"
proof -
  from assms obtain t :: "pdf \<Rightarrow> error + pdf" and c es pages where
    t: "t object_to_transform = Inr (Dictionary c es)" and
    p: "map_of es ''Pages'' = Some pages" and
    r: "(case pages of
           Dictionary pc pes \<Rightarrow>
             Inr (Dictionary c
               (AList.update ''Pages''
                 (Dictionary pc
                   (AList.update ''Count'' (Decimal (of_nat (length (dfs [pages] []))))
                     (AList.update ''Kids'' (pList (dfs [pages] [])) pes)))
                 es))
         | _ \<Rightarrow> Inl TypeError) = Inr transformed"
    by (auto simp: transform_def Let_def split: if_splits option.splits sum.splits pdf.splits)
  from r obtain pc pes where "pages = Dictionary pc pes"
    by (cases pages) simp_all
  with r have "transformed = Dictionary c (AList.update ''Pages''
        (Dictionary pc (AList.update ''Count'' (Decimal (of_nat (length (dfs [pages] []))))
           (AList.update ''Kids'' (pList (dfs [pages] [])) pes))) es)"
    by simp
  moreover have "list_all is_Page (dfs [pages] [])"
    by (rule dfs_pages) simp
  ultimately show ?thesis by blast
qed

lemma transform_returns:
  assumes "is_Dictionary object_to_transform"
    and "t object_to_transform = Inr (Dictionary c es)"
    and "map_of es ''Pages'' = Some (Dictionary pc pes)"
  shows "\<exists>r. transform (Some t) object_to_transform = Inr r"
  using assms by (simp add: transform_def Let_def)

text \<open>
  Claim C8. Whenever the catalog transformer returns, \<open>root["Pages"]["Kids"]\<close> is a list
  of \<open>Page\<close> objects only and \<open>root["Pages"]["Count"]\<close> is the length of that list. It
  returns whenever the object is a dictionary and the generic dictionary transformer
  returns a dictionary whose \<open>Pages\<close> entry is a dictionary.
\<close>

theorem transform_kids_are_pages:
  "(transform dictionary_transformer object_to_transform = Inr transformed \<longrightarrow>
      (\<exists>pages kids.
         getitem transformed ''Pages'' = Inr pages
         \<and> getitem pages ''Kids'' = Inr (pList kids)
         \<and> list_all is_Page kids
         \<and> getitem pages ''Count'' = Inr (Decimal (of_nat (length kids)))))
   \<and> (is_Dictionary object_to_transform
        \<and> t object_to_transform = Inr (Dictionary c es)
        \<and> map_of es ''Pages'' = Some (Dictionary pc pes) \<longrightarrow>
      (\<exists>r. transform (Some t) object_to_transform = Inr r))"
proof (intro conjI impI)
  assume "transform dictionary_transformer object_to_transform = Inr transformed"
  from transform_result [OF this] obtain c' es' pc' pes' kids where
    tr: "transformed = Dictionary c' (AList.update ''Pages''
        (Dictionary pc' (AList.update ''Count'' (Decimal (of_nat (length kids)))
           (AList.update ''Kids'' (pList kids) pes'))) es')"
    and pages: "list_all is_Page kids"
    by blast
  let ?pages = "Dictionary pc' (AList.update ''Count'' (Decimal (of_nat (length kids)))
           (AList.update ''Kids'' (pList kids) pes'))"
  have "getitem transformed ''Pages'' = Inr ?pages"
    by (simp add: tr update_conv')
  moreover have "getitem ?pages ''Kids'' = Inr (pList kids)"
    by (simp add: update_conv')
  moreover have "getitem ?pages ''Count'' = Inr (Decimal (of_nat (length kids)))"
    by (simp add: update_conv')
  ultimately show "\<exists>pages kids.
         getitem transformed ''Pages'' = Inr pages
         \<and> getitem pages ''Kids'' = Inr (pList kids)
         \<and> list_all is_Page kids
         \<and> getitem pages ''Count'' = Inr (Decimal (of_nat (length kids)))"
    using pages by blast
next
  assume "is_Dictionary object_to_transform
        \<and> t object_to_transform = Inr (Dictionary c es)
        \<and> map_of es ''Pages'' = Some (Dictionary pc pes)"
  then show "\<exists>r. transform (Some t) object_to_transform = Inr r"
    using transform_returns by blast
qed

lemma nested_catalog_run:
  "transform (Some Inr) nested_catalog =
    Inr (Dictionary PlainDictionary
      [(''Type'', Name ''Catalog''),
       (''Pages'', Dictionary PlainDictionary
          [(''Type'', Name ''Pages''),
           (''Kids'', pList [page ''C'', page ''A'', page ''B'']),
           (''Count'', Decimal 3)])])"
  by code_simp

theorem transform_kids_are_pages_witness:
  "\<exists>transformed pages kids.
     transform (Some Inr) nested_catalog = Inr transformed
     \<and> getitem transformed ''Pages'' = Inr pages
     \<and> getitem pages ''Kids'' = Inr (pList kids)
     \<and> list_all is_Page kids
     \<and> getitem pages ''Count'' = Inr (Decimal (of_nat (length kids)))"
  using transform_kids_are_pages [of "Some Inr" nested_catalog _ Inr]
    nested_catalog_run by blast

text \<open>
  Claim C1 fails on the code. The loop takes the first element of its work list and puts
  the kids at the end of it, so it visits the tree level by level: for the catalog with
  \<open>Pages.Kids = [Pages(Kids=[Page_A, Page_B]), Page_C]\<close> the new \<open>Kids\<close> is
  \<open>[Page_C, Page_A, Page_B]\<close> (and \<open>Count\<close> is 3), where the depth-first preorder of the
  tree is \<open>[Page_A, Page_B, Page_C]\<close>.
\<close>

theorem transform_level_order:
  "transform (Some Inr) nested_catalog =
    Inr (Dictionary PlainDictionary
      [(''Type'', Name ''Catalog''),
       (''Pages'', Dictionary PlainDictionary
          [(''Type'', Name ''Pages''),
           (''Kids'', pList [page ''C'', page ''A'', page ''B'']),
           (''Count'', Decimal 3)])])
   \<and> preorder (pages_node [pages_node [page ''A'', page ''B''], page ''C'']) =
       [page ''A'', page ''B'', page ''C'']"
  by code_simp

section \<open>Compatibility sections\<close>

lemmas operator_defs = canvas_operators_def Canvas_def BeginCompatibilitySection_def
  EndCompatibilitySection_def PushGraphicsState_def PopGraphicsState_def SetLineWidth_def

lemma read_unknown_operator:
  "canvas_ops name = None \<Longrightarrow>
   read canvas_ops (Some (CanvasOperatorName name) # rest) operand_stk cv =
     read canvas_ops rest operand_stk cv"
  by simp

lemma read_exception_in_section:
  assumes "canvas_ops name = Some operator"
    and "get_number_of_operands operator \<le> length operand_stk"
    and "invoke operator cv
           (drop (length operand_stk - get_number_of_operands operator) operand_stk) =
         (cv', Some e)"
  shows "read canvas_ops (Some (CanvasOperatorName name) # rest) operand_stk cv =
     (if in_compatibility_section cv' then
        read canvas_ops rest
          (take (length operand_stk - get_number_of_operands operator) operand_stk) cv'
      else Inl e)"
  using assms by (simp add: Let_def)

lemma read_underflow:
  assumes "canvas_ops name = Some operator"
    and "length operand_stk < get_number_of_operands operator"
  shows "read canvas_ops (Some (CanvasOperatorName name) # rest) operand_stk cv =
     (if in_compatibility_section cv then Inl IndexError else Inl AssertionError)"
  using assms by (simp add: Let_def)

lemma compatibility_swallow:
  "read canvas_operators
     [Some (CanvasOperatorName ''BX''), Some (Operand (Name ''Foo'')),
      Some (CanvasOperatorName ''bar''), Some (CanvasOperatorName ''EX''),
      Some (CanvasOperatorName ''q''), Some (CanvasOperatorName ''Q'')] [] Canvas = Inr Canvas"
  by (simp add: operator_defs)

text \<open>
  Claim C5 fails on the code. Inside a compatibility section the assertion on the operand
  stack is skipped, but the operands are popped all the same, outside the \<^verbatim>\<open>try\<close>:
  the stream \<open>BX w EX\<close>, whose \<open>w\<close> finds no operand, ends in \<open>IndexError\<close>; outside a
  section the same operator ends in \<open>AssertionError\<close>.
\<close>

theorem underflow_in_compatibility_section:
  "read canvas_operators
     [Some (CanvasOperatorName ''BX''), Some (CanvasOperatorName ''w''),
      Some (CanvasOperatorName ''EX'')] [] Canvas = Inl IndexError
   \<and> read canvas_operators [Some (CanvasOperatorName ''w'')] [] Canvas = Inl AssertionError"
  by (simp add: operator_defs)

section \<open>Equal objects share their object number\<close>

declare next_free.simps [simp del]

lemma next_free_fresh: "Some (next_free existing n) \<notin> set existing"
proof (induction existing n rule: next_free.induct)
  case (1 existing obj_number)
  show ?case
  proof (cases "Some obj_number \<in> set existing")
    case True
    with 1 show ?thesis by (subst next_free.simps) simp
  next
    case False
    then show ?thesis by (subst next_free.simps) simp
  qed
qed

lemma existing_obj_numbers_Inr:
  "existing_obj_numbers refs items = Inr ns \<Longrightarrow>
   ns = map (\<lambda>x. object_number (the (refs x))) items"
  by (induction items arbitrary: ns) (auto split: option.splits sum.splits)

lemma buckets_map_of:
  "distinct (map fst al) \<Longrightarrow>
   set (concat (map snd al)) = {x. \<exists>h b. map_of al h = Some b \<and> x \<in> set b}"
proof (induction al)
  case Nil
  then show ?case by simp
next
  case (Cons p al)
  obtain k v where p: "p = (k, v)" by (cases p)
  from Cons.prems p have k: "map_of al k = None" and d: "distinct (map fst al)"
    by (auto simp: map_of_eq_None_iff)
  have "{x. \<exists>h b. map_of ((k, v) # al) h = Some b \<and> x \<in> set b} =
      set v \<union> {x. \<exists>h b. map_of al h = Some b \<and> x \<in> set b}" (is "?L = ?R")
  proof (intro set_eqI iffI)
    fix x
    assume "x \<in> ?L"
    then obtain h b where hb: "map_of ((k, v) # al) h = Some b" "x \<in> set b" by blast
    show "x \<in> ?R"
    proof (cases "h = k")
      case True
      with hb show ?thesis by simp
    next
      case False
      with hb have "map_of al h = Some b" by simp
      with hb(2) show ?thesis by blast
    qed
  next
    fix x
    assume "x \<in> ?R"
    then consider "x \<in> set v" | h b where "map_of al h = Some b" "x \<in> set b" by blast
    then show "x \<in> ?L"
    proof cases
      case 1
      then have "map_of ((k, v) # al) k = Some v \<and> x \<in> set v" by simp
      then show ?thesis by blast
    next
      case 2
      with k have "h \<noteq> k" by auto
      with 2 have "map_of ((k, v) # al) h = Some b \<and> x \<in> set b" by simp
      then show ?thesis by blast
    qed
  qed
  with Cons.IH [OF d] p show ?case by simp
qed

lemma minted_iff:
  assumes "distinct (map fst (indirect_objects_by_hash context))"
  shows "x \<in> minted context \<longleftrightarrow>
     (\<exists>h b. map_of (indirect_objects_by_hash context) h = Some b \<and> x \<in> set b)"
  unfolding minted_def buckets_map_of [OF assms] by (simp only: mem_Collect_eq)

lemma set_reference_Inr: "set_reference current new = Inr r \<Longrightarrow> r = new"
  by (auto simp: set_reference_def split: option.splits if_splits)

lemma registry_invariant_iff:
  "registry_invariant om objects registered (refs, context) \<longleftrightarrow>
    (distinct (map fst (indirect_objects_by_hash context))
     \<and> dom (map_of (indirect_objects_by_id context)) = minted context
     \<and> (\<forall>x c. map_of (indirect_objects_by_id context) x = Some c \<longrightarrow> c = x)
     \<and> (\<forall>h b x. map_of (indirect_objects_by_hash context) h = Some b \<and> x \<in> set b
           \<longrightarrow> hash_of om (objects x) = Inr h)
     \<and> (\<forall>x \<in> minted context. \<exists>r n. refs x = Some r \<and> object_number r = Some n)
     \<and> (\<forall>x \<in> minted context. \<forall>y \<in> minted context.
           objects x = objects y
           \<or> object_number (the (refs x)) = object_number (the (refs y))
           \<longrightarrow> x = y)
     \<and> (\<forall>a \<in> registered. \<exists>m \<in> minted context. \<exists>ra rm.
           objects m = objects a \<and> refs a = Some ra \<and> refs m = Some rm
           \<and> object_number ra = object_number rm))"
  unfolding registry_invariant_def fst_conv snd_conv by (rule refl)

lemma invariant_cached:
  assumes inv: "registry_invariant om objects registered (refs, context)"
    and c: "map_of (indirect_objects_by_id context) a = Some cached"
  shows "registry_invariant om objects (insert a registered) (refs, context)"
proof -
  from inv have "dom (map_of (indirect_objects_by_id context)) = minted context"
    unfolding registry_invariant_iff by simp
  with c have m: "a \<in> minted context" by (metis domI)
  with inv obtain r n where "refs a = Some r" "object_number r = Some n"
    unfolding registry_invariant_iff by fastforce
  with m have "\<exists>m \<in> minted context. \<exists>ra rm.
           objects m = objects a \<and> refs a = Some ra \<and> refs m = Some rm
           \<and> object_number ra = object_number rm"
    by blast
  with inv show ?thesis
    unfolding registry_invariant_iff by simp
qed

lemma invariant_adopted:
  assumes inv: "registry_invariant om objects registered (refs, context)"
    and c: "map_of (indirect_objects_by_id context) a = None"
    and b: "map_of (indirect_objects_by_hash context) h = Some bucket"
    and f: "find (\<lambda>obj. objects obj = objects a) bucket = Some obj"
    and r: "refs obj = Some ref"
  shows "registry_invariant om objects (insert a registered) (refs(a \<mapsto> ref), context)"
proof -
  from inv have d: "distinct (map fst (indirect_objects_by_hash context))"
    unfolding registry_invariant_iff by simp
  from inv have "dom (map_of (indirect_objects_by_id context)) = minted context"
    unfolding registry_invariant_iff by simp
  with c have a: "a \<notin> minted context" by (metis domIff)
  from f have o: "obj \<in> set bucket" "objects obj = objects a"
    by (auto simp: find_Some_iff)
  with b d have om: "obj \<in> minted context"
    by (auto simp: minted_iff)
  with a have oa: "obj \<noteq> a" by blast
  have same: "(refs(a \<mapsto> ref)) x = refs x" if "x \<in> minted context" for x
    using that a by auto
  have 5: "\<forall>x \<in> minted context. \<exists>r n. (refs(a \<mapsto> ref)) x = Some r \<and> object_number r = Some n"
    using inv same unfolding registry_invariant_iff by simp
  have 6: "\<forall>x \<in> minted context. \<forall>y \<in> minted context.
           objects x = objects y
           \<or> object_number (the ((refs(a \<mapsto> ref)) x)) = object_number (the ((refs(a \<mapsto> ref)) y))
           \<longrightarrow> x = y"
    using inv same unfolding registry_invariant_iff by simp
  have 7: "\<exists>m \<in> minted context. \<exists>ra rm.
           objects m = objects x \<and> (refs(a \<mapsto> ref)) x = Some ra \<and> (refs(a \<mapsto> ref)) m = Some rm
           \<and> object_number ra = object_number rm"
    if x: "x \<in> insert a registered" for x
  proof (cases "x = a")
    case True
    with om o r oa show ?thesis by (intro bexI [of _ obj]) auto
  next
    case False
    with x have "x \<in> registered" by simp
    with inv obtain m ra rm where m: "m \<in> minted context" "objects m = objects x"
      "refs x = Some ra" "refs m = Some rm" "object_number ra = object_number rm"
      unfolding registry_invariant_iff by fastforce
    with False same [OF m(1)] show ?thesis by (intro bexI [of _ m]) auto
  qed
  from inv 5 6 7 show ?thesis
    unfolding registry_invariant_iff by simp
qed

lemma invariant_minted:
  assumes inv: "registry_invariant om objects registered (refs, context)"
    and c: "map_of (indirect_objects_by_id context) a = None"
    and h: "hash_of om (objects a) = Inr h"
    and b: "bucket = (case map_of (indirect_objects_by_hash context) h of
                        None \<Rightarrow> [] | Some b \<Rightarrow> b)"
    and f: "find (\<lambda>obj. objects obj = objects a) bucket = None"
    and e: "existing_obj_numbers refs (concat (map snd (indirect_objects_by_hash context))) =
              Inr existing"
    and n: "object_number ref = Some (next_free existing k)"
    and c': "context' = context\<lparr>indirect_objects_by_hash :=
                AList.update h (bucket @ [a]) (indirect_objects_by_hash context),
              indirect_objects_by_id := AList.update a a (indirect_objects_by_id context)\<rparr>"
  shows "registry_invariant om objects (insert a registered) (refs(a \<mapsto> ref), context')"
proof -
  from inv have d: "distinct (map fst (indirect_objects_by_hash context))"
    unfolding registry_invariant_iff by simp
  from inv have "dom (map_of (indirect_objects_by_id context)) = minted context"
    unfolding registry_invariant_iff by simp
  with c have a: "a \<notin> minted context" by (metis domIff)
  have d': "distinct (map fst (indirect_objects_by_hash context'))"
    using d by (simp add: c' distinct_update)
  have bucket: "x \<in> minted context" if "x \<in> set bucket" for x
  proof -
    from that b obtain b0 where "map_of (indirect_objects_by_hash context) h = Some b0"
      "x \<in> set b0"
      by (cases "map_of (indirect_objects_by_hash context) h") auto
    then show ?thesis unfolding minted_iff [OF d] by blast
  qed
  have in_bucket: "x \<in> set bucket"
    if "map_of (indirect_objects_by_hash context) h = Some b'" "x \<in> set b'" for x b'
    using that b by simp
  have lookup': "map_of (indirect_objects_by_hash context') h' =
      (if h' = h then Some (bucket @ [a]) else map_of (indirect_objects_by_hash context) h')"
    for h'
    by (simp add: c' update_conv')
  have m': "minted context' = insert a (minted context)"
  proof (intro set_eqI iffI)
    fix x
    assume "x \<in> minted context'"
    then obtain h' b' where hb: "map_of (indirect_objects_by_hash context') h' = Some b'"
      "x \<in> set b'"
      unfolding minted_iff [OF d'] by blast
    show "x \<in> insert a (minted context)"
    proof (cases "h' = h")
      case True
      with hb lookup' have "x \<in> set bucket \<or> x = a" by auto
      with bucket show ?thesis by blast
    next
      case False
      with hb lookup' have "map_of (indirect_objects_by_hash context) h' = Some b'" by simp
      with hb(2) have "x \<in> minted context" unfolding minted_iff [OF d] by blast
      then show ?thesis by simp
    qed
  next
    fix x
    assume "x \<in> insert a (minted context)"
    then consider "x = a" | "x \<in> minted context" by blast
    then show "x \<in> minted context'"
    proof cases
      case 1
      with lookup' [of h]
      have "map_of (indirect_objects_by_hash context') h = Some (bucket @ [a])
          \<and> x \<in> set (bucket @ [a])"
        by simp
      then show ?thesis unfolding minted_iff [OF d'] by blast
    next
      case 2
      then obtain h0 b0 where hb: "map_of (indirect_objects_by_hash context) h0 = Some b0"
        "x \<in> set b0"
        unfolding minted_iff [OF d] by blast
      show ?thesis
      proof (cases "h0 = h")
        case True
        with hb in_bucket have "x \<in> set (bucket @ [a])" by simp
        with lookup' [of h]
        have "map_of (indirect_objects_by_hash context') h = Some (bucket @ [a])
            \<and> x \<in> set (bucket @ [a])"
          by simp
        then show ?thesis unfolding minted_iff [OF d'] by blast
      next
        case False
        with hb lookup' [of h0]
        have "map_of (indirect_objects_by_hash context') h0 = Some b0 \<and> x \<in> set b0"
          by simp
        then show ?thesis unfolding minted_iff [OF d'] by blast
      qed
    qed
  qed
  have same: "(refs(a \<mapsto> ref)) x = refs x" if "x \<in> minted context" for x
    using that a by auto
  have "dom (map_of (indirect_objects_by_id context')) =
      insert a (dom (map_of (indirect_objects_by_id context)))"
    by (simp add: c' update_conv')
  moreover from inv have "dom (map_of (indirect_objects_by_id context)) = minted context"
    unfolding registry_invariant_iff by simp
  ultimately have 2: "dom (map_of (indirect_objects_by_id context')) = minted context'"
    unfolding m' by simp
  have 3: "\<forall>x c. map_of (indirect_objects_by_id context') x = Some c \<longrightarrow> c = x"
    using inv unfolding registry_invariant_iff by (simp add: c' update_conv')
  have 4: "hash_of om (objects x) = Inr h'"
    if "map_of (indirect_objects_by_hash context') h' = Some b'" "x \<in> set b'" for h' b' x
  proof (cases "h' = h")
    case True
    with that lookup' have "x \<in> set bucket \<or> x = a" by auto
    then show ?thesis
    proof
      assume "x \<in> set bucket"
      with b obtain b0 where "map_of (indirect_objects_by_hash context) h = Some b0" "x \<in> set b0"
        by (auto split: option.splits)
      with inv True show ?thesis unfolding registry_invariant_iff by blast
    next
      assume "x = a"
      with h True show ?thesis by simp
    qed
  next
    case False
    with that lookup' have "map_of (indirect_objects_by_hash context) h' = Some b'"
      by simp
    with inv that(2) show ?thesis unfolding registry_invariant_iff by blast
  qed
  have numbers: "object_number (the (refs x)) \<noteq> Some (next_free existing k)"
    if "x \<in> minted context" for x
  proof -
    from that have "object_number (the (refs x)) \<in> set existing"
      unfolding existing_obj_numbers_Inr [OF e] minted_def by simp
    with next_free_fresh [of existing k] show ?thesis by metis
  qed
  have differs: "objects x \<noteq> objects a" if "x \<in> minted context" for x
  proof
    assume eq: "objects x = objects a"
    from that d obtain h' b' where hb: "map_of (indirect_objects_by_hash context) h' = Some b'"
      "x \<in> set b'"
      by (auto simp: minted_iff)
    with inv have "hash_of om (objects x) = Inr h'"
      unfolding registry_invariant_iff by blast
    with eq h have "h' = h" by simp
    with hb have "x \<in> set bucket" using in_bucket by blast
    with eq f show False by (auto simp: find_None_iff)
  qed
  have 5: "\<forall>x \<in> minted context'. \<exists>r n. (refs(a \<mapsto> ref)) x = Some r \<and> object_number r = Some n"
  proof
    fix x assume "x \<in> minted context'"
    then have "x = a \<or> x \<in> minted context" by (simp add: m')
    then show "\<exists>r n. (refs(a \<mapsto> ref)) x = Some r \<and> object_number r = Some n"
    proof
      assume "x = a" with n show ?thesis by simp
    next
      assume x: "x \<in> minted context"
      with inv same [OF x] show ?thesis unfolding registry_invariant_iff by simp
    qed
  qed
  have 6: "x = y"
    if x: "x \<in> minted context'" and y: "y \<in> minted context'"
      and eq: "objects x = objects y
           \<or> object_number (the ((refs(a \<mapsto> ref)) x)) = object_number (the ((refs(a \<mapsto> ref)) y))"
    for x y
  proof (cases "x = a")
    case xa: True
    show ?thesis
    proof (cases "y = a")
      case True with xa show ?thesis by simp
    next
      case False
      with y have ym: "y \<in> minted context" by (simp add: m')
      from eq xa False n differs [OF ym] numbers [OF ym] show ?thesis by auto
    qed
  next
    case xa: False
    with x have xm: "x \<in> minted context" by (simp add: m')
    show ?thesis
    proof (cases "y = a")
      case True
      from eq xa True n differs [OF xm] numbers [OF xm] show ?thesis by auto
    next
      case False
      with y have ym: "y \<in> minted context" by (simp add: m')
      from eq same [OF xm] same [OF ym]
      have "objects x = objects y
           \<or> object_number (the (refs x)) = object_number (the (refs y))"
        by simp
      with inv xm ym show ?thesis unfolding registry_invariant_iff by blast
    qed
  qed
  have 7: "\<exists>m \<in> minted context'. \<exists>ra rm.
           objects m = objects x \<and> (refs(a \<mapsto> ref)) x = Some ra \<and> (refs(a \<mapsto> ref)) m = Some rm
           \<and> object_number ra = object_number rm"
    if x: "x \<in> insert a registered" for x
  proof (cases "x = a")
    case True
    then show ?thesis by (intro bexI [of _ a]) (auto simp: m')
  next
    case False
    with x have "x \<in> registered" by simp
    with inv obtain m ra rm where m: "m \<in> minted context" "objects m = objects x"
      "refs x = Some ra" "refs m = Some rm" "object_number ra = object_number rm"
      unfolding registry_invariant_iff by fastforce
    with False same [OF m(1)] show ?thesis by (intro bexI [of _ m]) (auto simp: m')
  qed
  from d' 2 3 4 5 6 7 show ?thesis
    unfolding registry_invariant_iff by (simp del: fun_upd_apply) blast
qed

lemma get_reference_invariant:
  assumes inv: "registry_invariant om objects registered state"
    and step: "get_reference om objects a state = Inr (r, state')"
  shows "registry_invariant om objects (insert a registered) state'"
proof -
  obtain refs ctxt where s: "state = (refs, ctxt)" by (cases state)
  show ?thesis
  proof (cases "map_of (indirect_objects_by_id ctxt) a")
    case (Some cached)
    with step s have "state' = (refs, ctxt)"
      by (auto simp: get_reference_def split: if_splits)
    with invariant_cached [OF inv [unfolded s] Some] show ?thesis by simp
  next
    case None
    from step s None obtain h where h: "hash_of om (objects a) = Inr h"
      by (auto simp: get_reference_def split: sum.splits)
    define bucket where "bucket =
      (case map_of (indirect_objects_by_hash ctxt) h of None \<Rightarrow> [] | Some b \<Rightarrow> b)"
    define existing_result where "existing_result =
      existing_obj_numbers refs (concat (map snd (indirect_objects_by_hash ctxt)))"
    from step s None h have step':
      "(case find (\<lambda>obj. objects obj = objects a) bucket of
          Some obj \<Rightarrow>
            (case refs obj of
               None \<Rightarrow> Inl AssertionError
             | Some ref \<Rightarrow>
                (case set_reference (refs a) ref of
                   Inl e \<Rightarrow> Inl e
                 | Inr r \<Rightarrow> Inr (Some ref, refs(a \<mapsto> r), ctxt)))
        | None \<Rightarrow>
            (case existing_result of
               Inl e \<Rightarrow> Inl e
             | Inr existing \<Rightarrow>
                (let obj_number = next_free existing (int (length (remdups existing)) + 1);
                     ref = \<lparr>object_number = Some obj_number, generation_number = None,
                            byte_offset = None\<rparr>
                 in case set_reference (refs a) ref of
                      Inl e \<Rightarrow> Inl e
                    | Inr r \<Rightarrow>
                       Inr (Some ref, refs(a \<mapsto> r),
                         ctxt\<lparr>indirect_objects_by_hash :=
                             AList.update h (bucket @ [a]) (indirect_objects_by_hash ctxt),
                           indirect_objects_by_id :=
                             AList.update a a (indirect_objects_by_id ctxt)\<rparr>)))) =
       Inr (r, state')"
      unfolding bucket_def existing_result_def by (simp add: get_reference_def Let_def)
    show ?thesis
    proof (cases "find (\<lambda>obj. objects obj = objects a) bucket")
      case found: (Some obj)
      from step' found obtain ref where r: "refs obj = Some ref"
        by (cases "refs obj") auto
      from step' found r obtain r' where sr: "set_reference (refs a) ref = Inr r'"
        by (cases "set_reference (refs a) ref") auto
      from set_reference_Inr [OF sr] step' found r sr
      have s': "state' = (refs(a \<mapsto> ref), ctxt)" by auto
      from found have "bucket \<noteq> []" by auto
      then obtain b where b: "map_of (indirect_objects_by_hash ctxt) h = Some b"
        and bb: "bucket = b"
        unfolding bucket_def by (auto split: option.splits)
      from invariant_adopted [OF inv [unfolded s] None b found [unfolded bb] r] s'
      show ?thesis by simp
    next
      case not_found: None
      from step' not_found obtain existing where e: "existing_result = Inr existing"
        by (cases existing_result) auto
      define ref where "ref =
        \<lparr>object_number = Some (next_free existing (int (length (remdups existing)) + 1)),
         generation_number = None, byte_offset = None\<rparr>"
      from step' not_found e obtain r' where sr: "set_reference (refs a) ref = Inr r'"
        by (cases "set_reference (refs a) ref") (auto simp: Let_def ref_def)
      from set_reference_Inr [OF sr] step' not_found e sr
      have s': "state' = (refs(a \<mapsto> ref),
              ctxt\<lparr>indirect_objects_by_hash :=
                AList.update h (bucket @ [a]) (indirect_objects_by_hash ctxt),
              indirect_objects_by_id := AList.update a a (indirect_objects_by_id ctxt)\<rparr>)"
        by (auto simp: Let_def ref_def)
      have n: "object_number ref =
          Some (next_free existing (int (length (remdups existing)) + 1))"
        by (simp add: ref_def)
      from invariant_minted [OF inv [unfolded s] None h bucket_def not_found
          e [unfolded existing_result_def] n refl] s'
      show ?thesis by simp
    qed
  qed
qed

lemma register_all_invariant:
  "registry_invariant om objects registered state \<Longrightarrow>
   register_all om objects calls state = Inr state' \<Longrightarrow>
   registry_invariant om objects (registered \<union> set calls) state'"
proof (induction calls arbitrary: registered state)
  case Nil
  then show ?case by simp
next
  case (Cons a calls)
  from Cons.prems(2) obtain r s where
    step: "get_reference om objects a state = Inr (r, s)" and
    rest: "register_all om objects calls s = Inr state'"
    by (auto split: sum.splits)
  from Cons.IH [OF get_reference_invariant [OF Cons.prems(1) step] rest]
  show ?case by simp
qed

lemma fresh_invariant:
  "registry_invariant om objects {} (refs, WriteTransformerContext)"
  by (simp add: registry_invariant_iff WriteTransformerContext_def minted_def)

lemma registered_equal_objects:
  assumes run: "register_all om objects calls (refs0, WriteTransformerContext) = Inr (refs, context)"
    and a: "a \<in> set calls" and b: "b \<in> set calls" and eq: "objects a = objects b"
  shows "\<exists>ra rb n. refs a = Some ra \<and> refs b = Some rb
       \<and> object_number ra = Some n \<and> object_number rb = Some n"
proof -
  from register_all_invariant [OF fresh_invariant run]
  have inv: "registry_invariant om objects (set calls) (refs, context)" by simp
  from inv a obtain ma ra rma where ma: "ma \<in> minted context" "objects ma = objects a"
    "refs a = Some ra" "refs ma = Some rma" "object_number ra = object_number rma"
    unfolding registry_invariant_iff by fastforce
  from inv b obtain mb rb rmb where mb: "mb \<in> minted context" "objects mb = objects b"
    "refs b = Some rb" "refs mb = Some rmb" "object_number rb = object_number rmb"
    unfolding registry_invariant_iff by fastforce
  from inv ma(1) mb(1) ma(2) mb(2) eq have "ma = mb"
    unfolding registry_invariant_iff by simp
  moreover from inv ma(1) obtain n where "object_number (the (refs ma)) = Some n"
    unfolding registry_invariant_iff by fastforce
  ultimately show ?thesis using ma mb by auto
qed

lemma two_fonts_run:
  "(case register_all example_model two_fonts [0, 1] (Map.empty, WriteTransformerContext) of
      Inl e \<Rightarrow> False
    | Inr (refs, c) \<Rightarrow>
        map_option object_number (refs 0) = Some (Some 1)
        \<and> map_option object_number (refs 1) = Some (Some 1))"
  by code_simp

lemma two_fonts_numbers:
  "\<exists>refs c. register_all example_model two_fonts [0, 1] (Map.empty, WriteTransformerContext) =
       Inr (refs, c)
     \<and> map_option object_number (refs 0) = Some (Some 1)
     \<and> map_option object_number (refs 1) = Some (Some 1)"
  using two_fonts_run
  by (cases "register_all example_model two_fonts [0, 1] (Map.empty, WriteTransformerContext)")
    auto

text \<open>
  Claim C2. After a write pass that registered the objects \<open>calls\<close> one after the other
  in a fresh context, any two of them with equal values carry references with the same
  object number. Two objects that hold the same font dictionary both get the object
  number 1.
\<close>

theorem equal_objects_share_number:
  assumes "register_all om objects calls (refs0, WriteTransformerContext) = Inr (refs, context)"
    and "a \<in> set calls" and "b \<in> set calls" and "objects a = objects b"
  shows "(\<exists>ra rb n. refs a = Some ra \<and> refs b = Some rb
           \<and> object_number ra = Some n \<and> object_number rb = Some n)
       \<and> (\<exists>refs' c. register_all example_model two_fonts [0, 1]
                        (Map.empty, WriteTransformerContext) = Inr (refs', c)
             \<and> map_option object_number (refs' 0) = Some (Some 1)
             \<and> map_option object_number (refs' 1) = Some (Some 1))"
  using registered_equal_objects [OF assms] two_fonts_numbers by blast

theorem equal_objects_share_number_witness:
  "\<exists>refs c ra rb n.
     register_all example_model two_fonts [0, 1] (Map.empty, WriteTransformerContext) =
       Inr (refs, c)
     \<and> (0 :: nat) \<in> set [0, 1] \<and> (1 :: nat) \<in> set [0, 1] \<and> two_fonts 0 = two_fonts 1
     \<and> refs 0 = Some ra \<and> refs 1 = Some rb
     \<and> object_number ra = Some n \<and> object_number rb = Some n"
proof -
  from two_fonts_numbers obtain refs c where
    run: "register_all example_model two_fonts [0, 1] (Map.empty, WriteTransformerContext) =
       Inr (refs, c)"
    by blast
  have h: "(0 :: nat) \<in> set [0, 1]" "(1 :: nat) \<in> set [0, 1]" "two_fonts 0 = two_fonts 1"
    by (simp_all add: two_fonts_def)
  from equal_objects_share_number [OF run h] run h show ?thesis by blast
qed

end
